theory Spec2Isabelle
  imports Complex_Main
begin

section \<open>Project Armstrong: the mission control loop\<close>

text \<open>
  A shallow embedding of \<^verbatim>\<open>agents.py\<close>, \<^verbatim>\<open>lunar_tools.py\<close>,
  \<^verbatim>\<open>main_mission.py\<close> and \<^verbatim>\<open>evaluate_agent.py\<close>.
  Python exceptions are values of type \<open>fault\<close>; rewards, which are floats in the
  source, are idealised as real numbers; the simulated process and the two reasoning
  services are external and enter as parameters.
\<close>

subsection \<open>Exceptions and dynamically typed values\<close>

text \<open>
  \<open>KeyboardInterrupt\<close> and \<open>OtherBaseException\<close> are not subclasses of
  \<^verbatim>\<open>Exception\<close>; the others are. \<open>TimeoutError\<close> is
  \<^verbatim>\<open>asyncio.TimeoutError\<close>.
\<close>

datatype fault =
    KeyboardInterrupt
  | TimeoutError
  | ValueError
  | TypeError
  | AttributeError
  | OtherException string
  | OtherBaseException string

fun is_Exception :: "fault \<Rightarrow> bool" where
  "is_Exception KeyboardInterrupt = False"
| "is_Exception (OtherBaseException _) = False"
| "is_Exception _ = True"

text \<open>
  The values a tool-call argument can hold: JSON null, a boolean, an integer or a string.
  Float-valued arguments are outside the model.
\<close>

datatype pyval = PyNone | PyBool bool | PyInt int | PyStr string

subsection \<open>The validating tool of \<^verbatim>\<open>agents.py\<close>\<close>

datatype validation_error = InvalidAction string | InvalidDuration int

record maneuver =
  m_action :: string
  m_duration :: int
  m_reasoning :: string

definition valid_actions :: "string list" where
  "valid_actions = [''MAIN_ENGINE'', ''LEFT_ENGINE'', ''RIGHT_ENGINE'', ''HOLD'']"

text \<open>
  \<^verbatim>\<open>agents.execute_maneuver(action, duration, reasoning)\<close>. The success dictionary
  is the record \<open>maneuver\<close>; the error dictionary is a \<open>validation_error\<close> that carries
  the value its message is formatted from.
\<close>

definition tool_execute_maneuver :: "string \<Rightarrow> int \<Rightarrow> string \<Rightarrow> validation_error + maneuver" where
  "tool_execute_maneuver action duration reasoning =
     (if action \<notin> set valid_actions then Inl (InvalidAction action)
      else if \<not> (1 \<le> duration \<and> duration \<le> 10) then Inl (InvalidDuration duration)
      else Inr \<lparr>m_action = action, m_duration = duration, m_reasoning = reasoning\<rparr>)"

subsection \<open>The external process and \<^verbatim>\<open>LunarLanderInterface\<close>\<close>

text \<open>
  What one \<^verbatim>\<open>env.step(action_code)\<close> returns, together with the process after
  the step (\<open>so_env\<close>). The \<^verbatim>\<open>info\<close> component is never read.
\<close>

record ('e, 'o) step_out =
  so_env :: 'e
  next_state :: 'o
  reward :: real
  terminated :: bool
  truncated :: bool

text \<open>
  The process interface: \<open>p_step\<close> may raise, \<open>p_render\<close> returns a frame or
  \<^verbatim>\<open>None\<close>, and \<open>p_describe\<close> stands for the two-decimal rendering of
  \<^verbatim>\<open>get_telemetry_description\<close>, which is float formatting.
\<close>

record ('e, 'o, 'f) process =
  p_step :: "'e \<Rightarrow> nat \<Rightarrow> fault + ('e, 'o) step_out"
  p_render :: "'e \<Rightarrow> 'f option"
  p_describe :: "'o \<Rightarrow> string"

record ('e, 'o, 'f) lander =
  env :: 'e
  current_state :: 'o
  total_reward :: real
  steps :: nat
  lander_done :: bool
  frames :: "'f list"

text \<open>\<^verbatim>\<open>get_telemetry\<close>: the state vector and the step counter.\<close>

record 'o telemetry =
  tel_state :: 'o
  steps_taken :: nat

definition get_telemetry :: "('e, 'o, 'f) lander \<Rightarrow> 'o telemetry" where
  "get_telemetry l = \<lparr>tel_state = current_state l, steps_taken = steps l\<rparr>"

definition get_telemetry_description :: "('e, 'o, 'f) process \<Rightarrow> ('e, 'o, 'f) lander \<Rightarrow> string" where
  "get_telemetry_description P l = p_describe P (current_state l)"

text \<open>
  \<^verbatim>\<open>action_map.get(action_name, 0)\<close>: the four names have their codes, anything else
  (another string, or a value that is no string) gets the default 0.
\<close>

definition action_map :: "string \<rightharpoonup> nat" where
  "action_map = [''HOLD'' \<mapsto> 0, ''MAIN_ENGINE'' \<mapsto> 2, ''LEFT_ENGINE'' \<mapsto> 3, ''RIGHT_ENGINE'' \<mapsto> 1]"

fun action_code :: "pyval \<Rightarrow> nat" where
  "action_code (PyStr s) = (case action_map s of Some c \<Rightarrow> c | None \<Rightarrow> 0)"
| "action_code _ = 0"

record ('o) exec_result =
  final_telemetry :: "'o telemetry"
  reward_accumulated :: real
  res_done :: bool
  action_executed :: pyval
  res_duration :: int

text \<open>
  One iteration of \<^verbatim>\<open>for _ in range(duration)\<close> after the \<^verbatim>\<open>self.done\<close>
  test: the lander after a step that returned \<open>out\<close>.
\<close>

definition after_step :: "('e, 'o, 'f) process \<Rightarrow> ('e, 'o, 'f) lander \<Rightarrow> ('e, 'o) step_out \<Rightarrow> ('e, 'o, 'f) lander" where
  "after_step P l out =
     l\<lparr>env := so_env out,
       lander_done := (terminated out \<or> truncated out),
       current_state := next_state out,
       total_reward := total_reward l + reward out,
       steps := steps l + 1,
       frames := (case p_render P (so_env out) of None \<Rightarrow> frames l | Some fr \<Rightarrow> frames l @ [fr])\<rparr>"

text \<open>
  The loop itself, with the remaining iteration count, the lander and
  \<^verbatim>\<open>step_rewards\<close>. A step that raises leaves the loop with the fault.
\<close>

fun frame_loop :: "('e, 'o, 'f) process \<Rightarrow> nat \<Rightarrow> nat \<Rightarrow> ('e, 'o, 'f) lander \<Rightarrow> real
    \<Rightarrow> ('e, 'o, 'f) lander \<times> real \<times> fault option" where
  "frame_loop P code 0 l step_rewards = (l, step_rewards, None)"
| "frame_loop P code (Suc n) l step_rewards =
     (if lander_done l then (l, step_rewards, None)
      else case p_step P (env l) code of
             Inl f \<Rightarrow> (l, step_rewards, Some f)
           | Inr out \<Rightarrow> frame_loop P code n (after_step P l out) (step_rewards + reward out))"

text \<open>
  \<^verbatim>\<open>LunarLanderInterface.execute_maneuver(action_name, duration)\<close>. The lander is
  returned in every case, the result dictionary only when no step raised.
  \<^verbatim>\<open>range(duration)\<close> is empty for a duration below 1.
\<close>

definition execute_maneuver :: "('e, 'o, 'f) process \<Rightarrow> ('e, 'o, 'f) lander \<Rightarrow> pyval \<Rightarrow> int
    \<Rightarrow> ('e, 'o, 'f) lander \<times> (fault + 'o exec_result)" where
  "execute_maneuver P l action_name duration =
     (let code = action_code action_name in
      case frame_loop P code (nat duration) l 0 of
        (l', step_rewards, Some f) \<Rightarrow> (l', Inl f)
      | (l', step_rewards, None) \<Rightarrow>
          (l', Inr \<lparr>final_telemetry = get_telemetry l',
                    reward_accumulated = step_rewards,
                    res_done = lander_done l',
                    action_executed = action_name,
                    res_duration = duration\<rparr>))"

subsection \<open>Extracting the decision from the Commander's events\<close>

text \<open>
  The events of the reasoning service as the loops read them: an event has an optional
  content, a content has optional parts, a part has an optional text and an optional
  function call, and a function call has a name and optional arguments.
  \<open>ev_final\<close> is \<^verbatim>\<open>event.is_final_response()\<close>.
\<close>

record function_call =
  fc_name :: string
  fc_args :: "(string \<rightharpoonup> pyval) option"

record part =
  part_text :: "string option"
  part_function_call :: "function_call option"

record content =
  parts :: "part list option"

record event =
  ev_content :: "content option"
  ev_final :: bool

record decision =
  action :: pyval
  duration :: int
  reasoning :: pyval

text \<open>
  The builtin \<^verbatim>\<open>int\<close> on the modelled values. On a string it reads an ASCII decimal
  literal: surrounding whitespace, one optional sign, digits with single underscores
  between them. Digits beyond ASCII and the interpreter's limit on the number of digits
  are not modelled.
\<close>

definition py_isspace :: "char \<Rightarrow> bool" where
  "py_isspace c = ((of_char c :: nat) \<in> {9, 10, 11, 12, 13, 28, 29, 30, 31, 32})"

definition is_digit :: "char \<Rightarrow> bool" where
  "is_digit c = (48 \<le> (of_char c :: nat) \<and> (of_char c :: nat) \<le> 57)"

fun parse_digits :: "bool \<Rightarrow> int \<Rightarrow> string \<Rightarrow> int option" where
  "parse_digits prev acc [] = (if prev then Some acc else None)"
| "parse_digits prev acc (c # cs) =
     (if is_digit c then parse_digits True (10 * acc + (int (of_char c) - 48)) cs
      else if c = CHR ''_'' \<and> prev then parse_digits False acc cs
      else None)"

definition int_of_str :: "string \<Rightarrow> int option" where
  "int_of_str s =
     (case rev (dropWhile py_isspace (rev (dropWhile py_isspace s))) of
        c # cs \<Rightarrow>
          (if c = CHR ''-'' then map_option uminus (parse_digits False 0 cs)
           else if c = CHR ''+'' then parse_digits False 0 cs
           else parse_digits False 0 (c # cs))
      | [] \<Rightarrow> None)"

fun py_int :: "pyval \<Rightarrow> fault + int" where
  "py_int (PyInt n) = Inr n"
| "py_int (PyBool b) = Inr (if b then 1 else 0)"
| "py_int (PyStr s) = (case int_of_str s of Some n \<Rightarrow> Inr n | None \<Rightarrow> Inl ValueError)"
| "py_int PyNone = Inl TypeError"

text \<open>\<^verbatim>\<open>d.get(key, default)\<close>.\<close>

definition dict_get :: "('k \<rightharpoonup> 'v) \<Rightarrow> 'k \<Rightarrow> 'v \<Rightarrow> 'v" where
  "dict_get d k dflt = (case d k of Some v \<Rightarrow> v | None \<Rightarrow> dflt)"

text \<open>
  The dictionary built from one function call. \<^verbatim>\<open>fn.args.get\<close> raises when the
  call carries no arguments object, \<^verbatim>\<open>int\<close> when the duration does not convert.
\<close>

definition decision_of_call :: "function_call \<Rightarrow> fault + decision" where
  "decision_of_call fn =
     (case fc_args fn of
        None \<Rightarrow> Inl AttributeError
      | Some args \<Rightarrow>
          (case py_int (dict_get args ''duration'' (PyInt 1)) of
             Inl e \<Rightarrow> Inl e
           | Inr n \<Rightarrow>
               Inr \<lparr>action = dict_get args ''action'' (PyStr ''HOLD''),
                    duration = n,
                    reasoning = dict_get args ''reasoning'' (PyStr ''No reasoning provided'')\<rparr>))"

definition default_decision :: decision where
  "default_decision = \<lparr>action = PyStr ''HOLD'', duration = 1, reasoning = PyStr ''Fallback''\<rparr>"

text \<open>
  The parts the inner loop runs over: none when
  \<^verbatim>\<open>event.content and event.content.parts\<close> is false.
\<close>

definition event_parts :: "event \<Rightarrow> part list" where
  "event_parts ev =
     (case ev_content ev of
        None \<Rightarrow> []
      | Some c \<Rightarrow> (case parts c of None \<Rightarrow> [] | Some ps \<Rightarrow> ps))"

text \<open>
  The inner loop \<^verbatim>\<open>for part in event.content.parts\<close>: \<open>None\<close> when it ends without
  a function call, otherwise what building the dictionary from the call gives, after
  which the loop breaks.
\<close>

fun scan_parts :: "part list \<Rightarrow> (fault + decision) option" where
  "scan_parts [] = None"
| "scan_parts (p # ps) =
     (case part_function_call p of
        Some fn \<Rightarrow> Some (decision_of_call fn)
      | None \<Rightarrow> scan_parts ps)"

text \<open>
  The outer loop \<^verbatim>\<open>for event in events\<close> with its variables \<^verbatim>\<open>found\<close> and
  \<^verbatim>\<open>decision\<close>.
\<close>

fun extract_loop :: "event list \<Rightarrow> bool \<Rightarrow> decision \<Rightarrow> fault + decision" where
  "extract_loop [] found decision = Inr decision"
| "extract_loop (ev # events) found decision =
     (if found then Inr decision
      else case scan_parts (event_parts ev) of
             None \<Rightarrow> extract_loop events found decision
           | Some (Inl e) \<Rightarrow> Inl e
           | Some (Inr d) \<Rightarrow> extract_loop events True d)"

text \<open>
  The Commander call under \<^verbatim>\<open>asyncio.wait_for\<close>: a timeout leaves no events, any
  other fault propagates.
\<close>

definition commander_events :: "fault + event list \<Rightarrow> fault + event list" where
  "commander_events reply =
     (case reply of
        Inl f \<Rightarrow> (if f = TimeoutError then Inr [] else Inl f)
      | Inr events \<Rightarrow> Inr events)"

definition decide :: "fault + event list \<Rightarrow> fault + decision" where
  "decide reply =
     (case commander_events reply of
        Inl f \<Rightarrow> Inl f
      | Inr events \<Rightarrow> extract_loop events False default_decision)"

text \<open>
  The Navigator loop: \<^verbatim>\<open>advice\<close> starts as the empty string and is overwritten by
  the text of the first part of every final response that has parts.
\<close>

fun advice_loop :: "event list \<Rightarrow> string option \<Rightarrow> string option" where
  "advice_loop [] advice = advice"
| "advice_loop (ev # events) advice =
     (case event_parts ev of
        p # ps \<Rightarrow> advice_loop events (if ev_final ev then part_text p else advice)
      | [] \<Rightarrow> advice_loop events advice)"

subsection \<open>The turn loop of \<^verbatim>\<open>main_mission.py\<close> and \<^verbatim>\<open>evaluate_agent.py\<close>\<close>

record 'o turn_record =
  tr_step :: nat
  tr_telemetry :: string
  navigator_advice :: "string option"
  commander_decision :: decision
  execution_result :: "'o exec_result"

text \<open>
  What the outside world does in one turn: the Navigator's events or the fault its call
  raises, the same for the Commander, and an interrupt raised during the delay that ends
  the turn, if any.
\<close>

record turn_io =
  navigator_reply :: "fault + event list"
  commander_reply :: "fault + event list"
  sleep_interrupt :: "fault option"

record ('e, 'o, 'f) mission =
  m_lander :: "('e, 'o, 'f) lander"
  step_count :: nat
  episode_reward :: real
  mission_log :: "'o turn_record list"

text \<open>
  The body of the \<^verbatim>\<open>while\<close> loop, steps A to E and the delay. The second component
  is the fault that left the body, if one did.
\<close>

definition turn :: "('e, 'o, 'f) process \<Rightarrow> turn_io \<Rightarrow> ('e, 'o, 'f) mission
    \<Rightarrow> ('e, 'o, 'f) mission \<times> fault option" where
  "turn P io st =
     (let st1 = st\<lparr>step_count := step_count st + 1\<rparr>;
          telemetry_desc = get_telemetry_description P (m_lander st1)
      in case navigator_reply io of
           Inl f \<Rightarrow> (st1, Some f)
         | Inr nav_events \<Rightarrow>
             (let advice = advice_loop nav_events (Some [])
              in case decide (commander_reply io) of
                   Inl f \<Rightarrow> (st1, Some f)
                 | Inr decision \<Rightarrow>
                     (case execute_maneuver P (m_lander st1) (action decision) (duration decision) of
                        (l', Inl f) \<Rightarrow> (st1\<lparr>m_lander := l'\<rparr>, Some f)
                      | (l', Inr result) \<Rightarrow>
                          (st1\<lparr>m_lander := l',
                               episode_reward := episode_reward st1 + reward_accumulated result,
                               mission_log := mission_log st1 @
                                 [\<lparr>tr_step = step_count st1,
                                   tr_telemetry = telemetry_desc,
                                   navigator_advice = advice,
                                   commander_decision = decision,
                                   execution_result = result\<rparr>]\<rparr>,
                           sleep_interrupt io))))"

text \<open>
  \<^verbatim>\<open>while not lander.done and step_count < max_steps\<close>; \<open>io n\<close> is what the outside
  world does in turn \<open>n\<close>.
\<close>

function mission_loop :: "('e, 'o, 'f) process \<Rightarrow> nat \<Rightarrow> (nat \<Rightarrow> turn_io) \<Rightarrow> ('e, 'o, 'f) mission
    \<Rightarrow> ('e, 'o, 'f) mission \<times> fault option" where
  "mission_loop P max_steps io st =
     (if \<not> lander_done (m_lander st) \<and> step_count st < max_steps
      then case turn P (io (step_count st + 1)) st of
             (st', Some f) \<Rightarrow> (st', Some f)
           | (st', None) \<Rightarrow> mission_loop P max_steps io st'
      else (st, None))"
  by pat_completeness auto
termination
proof (relation "measure (\<lambda>(P, max_steps, io, st). max_steps - step_count st)")
  show "wf (measure (\<lambda>(P, max_steps, io, st). max_steps - step_count st))"
    by simp
next
  fix P :: "('e, 'o, 'f) process" and max_steps io and st st' :: "('e, 'o, 'f) mission" and r
  assume run: "\<not> lander_done (m_lander st) \<and> step_count st < max_steps"
    and t: "(st', r) = turn P (io (step_count st + 1)) st"
  have "step_count (fst (turn P (io (step_count st + 1)) st)) = step_count st + 1"
    by (simp add: turn_def Let_def split: sum.splits prod.splits)
  then have "step_count st' = step_count st + 1"
    using t [symmetric] by simp
  then show "((P, max_steps, io, st'), (P, max_steps, io, st))
      \<in> measure (\<lambda>(P, max_steps, io, st). max_steps - step_count st)"
    using run by (simp add: diff_less_mono2)
qed

declare mission_loop.simps [simp del]

text \<open>\<^verbatim>\<open>LunarLanderInterface()\<close> on a process that was reset to \<open>e0\<close> with state \<open>o0\<close>.\<close>

definition new_lander :: "'e \<Rightarrow> 'o \<Rightarrow> ('e, 'o, 'f) lander" where
  "new_lander e0 o0 =
     \<lparr>env = e0, current_state = o0, total_reward = 0, steps = 0, lander_done = False, frames = []\<rparr>"

definition new_mission :: "'e \<Rightarrow> 'o \<Rightarrow> ('e, 'o, 'f) mission" where
  "new_mission e0 o0 =
     \<lparr>m_lander = new_lander e0 o0, step_count = 0, episode_reward = 0, mission_log = []\<rparr>"

subsection \<open>\<^verbatim>\<open>main_mission.main\<close>\<close>

text \<open>
  The three dictionaries \<^verbatim>\<open>main\<close> returns: the one for a missing key, the one at
  mission end (status, total reward, steps, log) and the one after a
  \<^verbatim>\<open>KeyboardInterrupt\<close> (total reward, steps; no log).
\<close>

datatype 'o main_return =
    NoApiKey
  | MissionEnd string real nat "'o turn_record list"
  | AbortedByUser real nat


text \<open>Section 3 of \<^verbatim>\<open>main\<close>: the classification reads \<^verbatim>\<open>lander.total_reward\<close>.\<close>

definition result_status :: "real \<Rightarrow> string" where
  "result_status tot =
     (if tot \<ge> 200 then ''SUCCESS''
      else if tot \<le> - 100 then ''CRASH''
      else ''INCOMPLETE'')"

definition mission_end :: "('e, 'o, 'f) mission \<Rightarrow> 'o main_return" where
  "mission_end st =
     MissionEnd (result_status (total_reward (m_lander st)))
       (episode_reward st) (step_count st) (mission_log st)"

text \<open>
  What is left when \<^verbatim>\<open>main\<close> is over: the value it returned or the fault it let
  through, the content written to \<^verbatim>\<open>mission_log.json\<close> (\<open>None\<close> when the file was
  never written), the frames saved as the replay (\<^verbatim>\<open>save_video\<close> writes nothing when
  there are none), and whether \<^verbatim>\<open>lander.close()\<close> ran. The file operations of the
  \<^verbatim>\<open>finally\<close> block are taken to succeed.
\<close>

record ('o, 'f) main_exit =
  returned :: "fault + 'o main_return"
  log_file :: "'o turn_record list option"
  replay :: "'f list option"
  env_closed :: bool

definition main :: "('e, 'o, 'f) process \<Rightarrow> (nat \<Rightarrow> turn_io) \<Rightarrow> string option \<Rightarrow> 'e \<Rightarrow> 'o
    \<Rightarrow> ('o, 'f) main_exit" where
  "main P io api_key e0 o0 =
     (if api_key = None \<or> api_key = Some []
      then \<lparr>returned = Inr NoApiKey, log_file = None, replay = None, env_closed = False\<rparr>
      else case mission_loop P 100 io (new_mission e0 o0) of
             (st, f) \<Rightarrow>
               \<lparr>returned =
                  (case f of
                     None \<Rightarrow> Inr (mission_end st)
                   | Some e \<Rightarrow>
                       (if e = KeyboardInterrupt
                        then Inr (AbortedByUser (episode_reward st) (step_count st))
                        else Inl e)),
                log_file = Some (mission_log st),
                replay = (if frames (m_lander st) = [] then None else Some (frames (m_lander st))),
                env_closed = True\<rparr>)"

subsection \<open>\<^verbatim>\<open>evaluate_agent.run_episode\<close>\<close>

record 'o episode_result =
  episode_id :: nat
  ep_total_reward :: real
  ep_steps :: nat
  success :: bool
  ep_log :: "'o turn_record list"

record 'o episode_exit =
  ep_returned :: "fault + 'o episode_result"
  ep_env_closed :: bool

text \<open>
  \<^verbatim>\<open>except Exception\<close> swallows the faults that are Exceptions, after which the
  result dictionary is returned as on the normal path; any other fault leaves through
  the \<^verbatim>\<open>finally\<close> block. Nothing is written to a file here.
\<close>

definition run_episode :: "('e, 'o, 'f) process \<Rightarrow> (nat \<Rightarrow> turn_io) \<Rightarrow> nat \<Rightarrow> 'e \<Rightarrow> 'o
    \<Rightarrow> 'o episode_exit" where
  "run_episode P io ep_id e0 o0 =
     (case mission_loop P 80 io (new_mission e0 o0) of
        (st, f) \<Rightarrow>
          \<lparr>ep_returned =
             (if (case f of None \<Rightarrow> True | Some e \<Rightarrow> is_Exception e)
              then Inr \<lparr>episode_id = ep_id,
                        ep_total_reward = episode_reward st,
                        ep_steps = step_count st,
                        success = (episode_reward st \<ge> 200),
                        ep_log = mission_log st\<rparr>
              else Inl (the f)),
           ep_env_closed = True\<rparr>)"

subsection \<open>Sessions, runners and the compaction configuration\<close>











subsection \<open>Notions the properties are stated with\<close>

text \<open>A frame is terminal when the process reports it terminated or truncated.\<close>

definition terminal :: "('e, 'o) step_out \<Rightarrow> bool" where
  "terminal out = (terminated out \<or> truncated out)"

text \<open>
  What the process answers to \<open>n\<close> successive steps with code \<open>c\<close> from state \<open>e\<close>;
  \<open>None\<close> when one of them raises.
\<close>

fun answers :: "('e, 'o, 'f) process \<Rightarrow> nat \<Rightarrow> 'e \<Rightarrow> nat \<Rightarrow> ('e, 'o) step_out list option" where
  "answers P c e 0 = Some []"
| "answers P c e (Suc n) =
     (case p_step P e c of
        Inl f \<Rightarrow> None
      | Inr out \<Rightarrow> map_option ((#) out) (answers P c (so_env out) n))"

text \<open>The process state after the frames \<open>outs\<close>.\<close>

definition env_after :: "'e \<Rightarrow> ('e, 'o) step_out list \<Rightarrow> 'e" where
  "env_after e outs = (if outs = [] then e else so_env (last outs))"

text \<open>All structured tool invocations of a response, in event order.\<close>

definition function_calls :: "event list \<Rightarrow> function_call list" where
  "function_calls events =
     concat (map (\<lambda>ev. List.map_filter part_function_call (event_parts ev)) events)"

text \<open>
  A process for concrete runs. Its state is the list of the action codes it has received;
  frame \<open>k\<close> pays the \<open>k\<close>-th reward of the script and reports the \<open>k\<close>-th terminal
  flag; it raises once the script is used up. It renders nothing.
\<close>

definition scripted :: "(real \<times> bool) list \<Rightarrow> (nat list, nat, unit) process" where
  "scripted script =
     \<lparr>p_step = (\<lambda>e c. case drop (length e) script of
                   [] \<Rightarrow> Inl (OtherException ''script exhausted'')
                 | (r, t) # _ \<Rightarrow>
                     Inr \<lparr>so_env = e @ [c], next_state = Suc (length e), reward = r,
                          terminated = t, truncated = False\<rparr>),
      p_render = (\<lambda>e. None),
      p_describe = (\<lambda>n. [])\<rparr>"

text \<open>
  Two response events for concrete runs: one whose single part is a call of the tool with
  the given arguments, and a final response whose single part is text.
\<close>

definition call_event :: "(string \<rightharpoonup> pyval) \<Rightarrow> event" where
  "call_event args =
     \<lparr>ev_content = Some \<lparr>parts = Some [\<lparr>part_text = None,
        part_function_call = Some \<lparr>fc_name = ''execute_maneuver'', fc_args = Some args\<rparr>\<rparr>]\<rparr>,
      ev_final = False\<rparr>"

definition text_event :: "string \<Rightarrow> event" where
  "text_event t =
     \<lparr>ev_content = Some \<lparr>parts = Some [\<lparr>part_text = Some t, part_function_call = None\<rparr>]\<rparr>,
      ev_final = True\<rparr>"

section \<open>Properties\<close>

subsection \<open>The validator\<close>

text \<open>
  Claim C4. For every candidate decision (an action string and a duration integer) the
  validating tool returns a success result exactly when the action is one of
  MAIN_ENGINE, LEFT_ENGINE, RIGHT_ENGINE, HOLD and the duration lies between 1 and 10.
  A success result carries the action, the duration and the reasoning it was given,
  unchanged; every other input gets a validation error that names the rejected value.
\<close>

theorem tool_execute_maneuver_accepts_iff:
  "((\<exists>m. tool_execute_maneuver a d r = Inr m)
      = (a \<in> {''MAIN_ENGINE'', ''LEFT_ENGINE'', ''RIGHT_ENGINE'', ''HOLD''} \<and> 1 \<le> d \<and> d \<le> 10))
   \<and> (\<forall>m. tool_execute_maneuver a d r = Inr m
         \<longrightarrow> m = \<lparr>m_action = a, m_duration = d, m_reasoning = r\<rparr>)
   \<and> (\<forall>e. tool_execute_maneuver a d r = Inl e
         \<longrightarrow> e = InvalidAction a \<or> e = InvalidDuration d)"
  by (auto simp add: tool_execute_maneuver_def valid_actions_def)

theorem tool_execute_maneuver_accepts_iff_witness:
  "tool_execute_maneuver ''HOLD'' 3 ''wait'' = Inr \<lparr>m_action = ''HOLD'', m_duration = 3, m_reasoning = ''wait''\<rparr>
   \<and> tool_execute_maneuver ''HOLD'' 11 ''wait'' = Inl (InvalidDuration 11)
   \<and> tool_execute_maneuver ''hold'' 3 ''wait'' = Inl (InvalidAction ''hold'')"
  using tool_execute_maneuver_accepts_iff [of "''HOLD''" 3 "''wait''"]
    tool_execute_maneuver_accepts_iff [of "''HOLD''" 11 "''wait''"]
    tool_execute_maneuver_accepts_iff [of "''hold''" 3 "''wait''"]
  by (simp add: tool_execute_maneuver_def valid_actions_def)

subsection \<open>The actuation burst\<close>

lemma after_step_simps [simp]:
  "env (after_step P l out) = so_env out"
  "lander_done (after_step P l out) = terminal out"
  "steps (after_step P l out) = Suc (steps l)"
  "total_reward (after_step P l out) = total_reward l + reward out"
  "current_state (after_step P l out) = next_state out"
  by (simp_all add: after_step_def terminal_def)

lemma frame_loop_spec:
  "frame_loop P c n l acc = (l', acc', fo) \<Longrightarrow>
   \<exists>outs. answers P c (env l) (length outs) = Some outs
     \<and> length outs \<le> n
     \<and> (\<forall>i. Suc i < length outs \<longrightarrow> \<not> terminal (outs ! i))
     \<and> (lander_done l \<longrightarrow> outs = [])
     \<and> steps l' = steps l + length outs
     \<and> env l' = env_after (env l) outs
     \<and> acc' = acc + sum_list (map reward outs)
     \<and> total_reward l' = total_reward l + sum_list (map reward outs)
     \<and> lander_done l' = (if outs = [] then lander_done l else terminal (last outs))
     \<and> (case fo of
          None \<Rightarrow> length outs = n \<or> lander_done l'
        | Some f \<Rightarrow> p_step P (env l') c = Inl f \<and> length outs < n \<and> \<not> lander_done l')"
proof (induction n arbitrary: l acc)
  case 0
  then show ?case by (intro exI [of _ "[]"]) (simp add: env_after_def)
next
  case (Suc n)
  show ?case
  proof (cases "lander_done l")
    case True
    with Suc.prems show ?thesis by (intro exI [of _ "[]"]) (simp add: env_after_def)
  next
    case notdone: False
    show ?thesis
    proof (cases "p_step P (env l) c")
      case (Inl f)
      with notdone Suc.prems show ?thesis
        by (intro exI [of _ "[]"]) (auto simp add: env_after_def)
    next
      case (Inr out)
      with notdone Suc.prems
      have rec: "frame_loop P c n (after_step P l out) (acc + reward out) = (l', acc', fo)"
        by simp
      let ?l1 = "after_step P l out"
      from Suc.IH [OF rec] obtain outs where IH:
        "answers P c (env ?l1) (length outs) = Some outs
         \<and> length outs \<le> n
         \<and> (\<forall>i. Suc i < length outs \<longrightarrow> \<not> terminal (outs ! i))
         \<and> (lander_done ?l1 \<longrightarrow> outs = [])
         \<and> steps l' = steps ?l1 + length outs
         \<and> env l' = env_after (env ?l1) outs
         \<and> acc' = acc + reward out + sum_list (map reward outs)
         \<and> total_reward l' = total_reward ?l1 + sum_list (map reward outs)
         \<and> lander_done l' = (if outs = [] then lander_done ?l1 else terminal (last outs))
         \<and> (case fo of
              None \<Rightarrow> length outs = n \<or> lander_done l'
            | Some f \<Rightarrow> p_step P (env l') c = Inl f \<and> length outs < n \<and> \<not> lander_done l')"
        by blast
      then have a: "answers P c (so_env out) (length outs) = Some outs"
        and b: "length outs \<le> n"
        and c: "\<forall>i. Suc i < length outs \<longrightarrow> \<not> terminal (outs ! i)"
        and d: "terminal out \<longrightarrow> outs = []"
        and e: "steps l' = Suc (steps l) + length outs"
        and f: "env l' = env_after (so_env out) outs"
        and g: "acc' = acc + reward out + sum_list (map reward outs)"
        and h: "total_reward l' = total_reward l + reward out + sum_list (map reward outs)"
        and i: "lander_done l' = (if outs = [] then terminal out else terminal (last outs))"
        and j: "(case fo of
          None \<Rightarrow> length outs = n \<or> lander_done l'
        | Some f \<Rightarrow> p_step P (env l') c = Inl f \<and> length outs < n \<and> \<not> lander_done l')"
        by simp_all
      have c': "\<forall>i. Suc i < length (out # outs) \<longrightarrow> \<not> terminal ((out # outs) ! i)"
      proof (intro allI impI)
        fix i assume "Suc i < length (out # outs)"
        then show "\<not> terminal ((out # outs) ! i)"
          using c d by (cases i) auto
      qed
      show ?thesis
        apply (intro exI [of _ "out # outs"])
        using a b c' e f g h i j Inr notdone
        by (auto simp add: env_after_def split: option.splits)
    qed
  qed
qed

lemma last_nonterminal:
  assumes c: "\<forall>i. Suc i < length outs \<longrightarrow> \<not> terminal (outs ! i)"
    and l: "outs \<noteq> [] \<longrightarrow> \<not> terminal (last outs)"
  shows "\<forall>out\<in>set outs. \<not> terminal out"
proof
  fix out assume "out \<in> set outs"
  then obtain i where i: "i < length outs" "out = outs ! i"
    by (auto simp add: in_set_conv_nth)
  show "\<not> terminal out"
  proof (cases "Suc i < length outs")
    case True
    with c i show ?thesis by simp
  next
    case False
    with i have ne: "outs \<noteq> []" and "i = length outs - 1"
      by auto
    with i have "out = last outs"
      by (simp add: last_conv_nth)
    with l ne show ?thesis by simp
  qed
qed

text \<open>
  Claim C3. An invocation of the executor with duration \<open>d\<close> runs frames \<open>outs\<close>, which are
  the answers of the process to that many successive steps with the mapped code. There
  are at most \<open>d\<close> of them, none but the last is terminal, and none is run when the
  lander is already done. The step counter grows by their number and the process is left
  in the state after the last of them. When no step raises, the one result returned has
  either all \<open>d\<close> frames behind it or \<open>done\<close> set; \<open>done\<close> is the terminal flag of the
  last frame run, and the accumulated reward is the sum of the rewards of the frames run.
  When a step raises, fewer than \<open>d\<close> frames were run, none of them terminal, and the
  fault is the one the process raised on the next step.
\<close>

theorem execute_maneuver_burst:
  "\<exists>outs. answers P (action_code a) (env l) (length outs) = Some outs
     \<and> length outs \<le> nat d
     \<and> (\<forall>i. Suc i < length outs \<longrightarrow> \<not> terminal (outs ! i))
     \<and> (lander_done l \<longrightarrow> outs = [])
     \<and> steps (fst (execute_maneuver P l a d)) = steps l + length outs
     \<and> env (fst (execute_maneuver P l a d)) = env_after (env l) outs
     \<and> (case snd (execute_maneuver P l a d) of
          Inr res \<Rightarrow>
            (length outs = nat d \<or> res_done res)
            \<and> res_done res = (if outs = [] then lander_done l else terminal (last outs))
            \<and> reward_accumulated res = sum_list (map reward outs)
        | Inl f \<Rightarrow>
            length outs < nat d
            \<and> (\<forall>out\<in>set outs. \<not> terminal out)
            \<and> p_step P (env_after (env l) outs) (action_code a) = Inl f)"
proof -
  obtain l' acc' fo where run: "frame_loop P (action_code a) (nat d) l 0 = (l', acc', fo)"
    by (cases "frame_loop P (action_code a) (nat d) l 0") auto
  from frame_loop_spec [OF run] obtain outs where spec:
    "answers P (action_code a) (env l) (length outs) = Some outs"
    "length outs \<le> nat d"
    "\<forall>i. Suc i < length outs \<longrightarrow> \<not> terminal (outs ! i)"
    "lander_done l \<longrightarrow> outs = []"
    "steps l' = steps l + length outs"
    "env l' = env_after (env l) outs"
    "acc' = 0 + sum_list (map reward outs)"
    "lander_done l' = (if outs = [] then lander_done l else terminal (last outs))"
    "(case fo of
        None \<Rightarrow> length outs = nat d \<or> lander_done l'
      | Some f \<Rightarrow> p_step P (env l') (action_code a) = Inl f \<and> length outs < nat d \<and> \<not> lander_done l')"
    by blast
  show ?thesis
  proof (cases fo)
    case None
    with run spec show ?thesis
      by (intro exI [of _ outs]) (simp add: execute_maneuver_def)
  next
    case (Some f)
    with spec have nd: "\<not> lander_done l'" by simp
    with spec(8) have "outs \<noteq> [] \<longrightarrow> \<not> terminal (last outs)" by auto
    with spec(3) have "\<forall>out\<in>set outs. \<not> terminal out"
      by (rule last_nonterminal)
    with Some run spec show ?thesis
      by (intro exI [of _ outs]) (simp add: execute_maneuver_def)
  qed
qed

theorem execute_maneuver_burst_witness:
  "steps (fst (execute_maneuver (scripted [(3/2, False), (2, True), (7, False)])
       (new_lander [] 0) (PyStr ''MAIN_ENGINE'') 5)) = 2
   \<and> env (fst (execute_maneuver (scripted [(3/2, False), (2, True), (7, False)])
       (new_lander [] 0) (PyStr ''MAIN_ENGINE'') 5)) = [2, 2]
   \<and> snd (execute_maneuver (scripted [(3/2, False), (2, True), (7, False)])
       (new_lander [] 0) (PyStr ''MAIN_ENGINE'') 5)
     = Inr \<lparr>final_telemetry = \<lparr>tel_state = 2, steps_taken = 2\<rparr>, reward_accumulated = 7/2,
            res_done = True, action_executed = PyStr ''MAIN_ENGINE'', res_duration = 5\<rparr>"
  using execute_maneuver_burst [of "scripted [(3/2, False), (2, True), (7, False)]"
      "PyStr ''MAIN_ENGINE''" "new_lander [] 0" 5]
  by (simp add: execute_maneuver_def scripted_def new_lander_def after_step_def action_map_def
      eval_nat_numeral get_telemetry_def)

text \<open>
  Claim C10. The duration recorded in the result is the duration requested, whatever the
  number of frames run: a burst of 3 frames requested from a process that terminates on
  its first frame records 3 and has run 1.
\<close>

theorem result_duration_is_requested:
  "(\<forall>res. snd (execute_maneuver P l a d) = Inr res \<longrightarrow> res_duration res = d)
   \<and> (\<exists>res. snd (execute_maneuver (scripted [(1, True)]) (new_lander [] 0) (PyStr ''HOLD'') 3) = Inr res
        \<and> int (steps (fst (execute_maneuver (scripted [(1, True)]) (new_lander [] 0) (PyStr ''HOLD'') 3)))
            < res_duration res)"
proof
  show "\<forall>res. snd (execute_maneuver P l a d) = Inr res \<longrightarrow> res_duration res = d"
    by (auto simp add: execute_maneuver_def Let_def split: prod.splits option.splits)
  show "\<exists>res. snd (execute_maneuver (scripted [(1, True)]) (new_lander [] 0) (PyStr ''HOLD'') 3) = Inr res
        \<and> int (steps (fst (execute_maneuver (scripted [(1, True)]) (new_lander [] 0) (PyStr ''HOLD'') 3)))
            < res_duration res"
    by (simp add: execute_maneuver_def scripted_def new_lander_def after_step_def action_map_def
      eval_nat_numeral get_telemetry_def)
qed

theorem result_duration_is_requested_witness:
  "snd (execute_maneuver (scripted [(1, False), (4, True), (9, False)]) (new_lander [] 0) (PyStr ''LEFT_ENGINE'') 3)
     = Inr \<lparr>final_telemetry = \<lparr>tel_state = 2, steps_taken = 2\<rparr>, reward_accumulated = 5,
            res_done = True, action_executed = PyStr ''LEFT_ENGINE'', res_duration = 3\<rparr>
   \<and> res_duration \<lparr>final_telemetry = \<lparr>tel_state = 2 :: nat, steps_taken = 2\<rparr>, reward_accumulated = 5,
            res_done = True, action_executed = PyStr ''LEFT_ENGINE'', res_duration = 3\<rparr> = 3"
  using result_duration_is_requested [of "scripted [(1, False), (4, True), (9, False)]"
      "new_lander [] 0" "PyStr ''LEFT_ENGINE''" 3]
  by (simp add: execute_maneuver_def scripted_def new_lander_def after_step_def action_map_def
      eval_nat_numeral get_telemetry_def)

subsection \<open>The action codes\<close>

lemma scripted_frame_loop:
  "frame_loop (scripted s) c n l acc = (l', acc', fo) \<Longrightarrow>
   steps l \<le> steps l' \<and> steps l' \<le> steps l + n \<and> env l' = env l @ replicate (steps l' - steps l) c"
proof (induction n arbitrary: l acc)
  case 0
  then show ?case by simp
next
  case (Suc n)
  show ?case
  proof (cases "lander_done l")
    case True
    with Suc.prems show ?thesis by simp
  next
    case notdone: False
    show ?thesis
    proof (cases "p_step (scripted s) (env l) c")
      case (Inl f)
      with notdone Suc.prems show ?thesis by simp
    next
      case (Inr out)
      then have out: "so_env out = env l @ [c]"
        by (auto simp add: scripted_def split: list.splits)
      from Inr notdone Suc.prems
      have "frame_loop (scripted s) c n (after_step (scripted s) l out) (acc + reward out) = (l', acc', fo)"
        by simp
      from Suc.IH [OF this] out
      have le: "Suc (steps l) \<le> steps l'" and le2: "steps l' \<le> Suc (steps l) + n"
        and e: "env l' = (env l @ [c]) @ replicate (steps l' - Suc (steps l)) c"
        by simp_all
      from le have "replicate (steps l' - steps l) c = c # replicate (steps l' - Suc (steps l)) c"
        by (simp add: Suc_diff_le flip: replicate_Suc)
      with le le2 e show ?thesis by simp
    qed
  qed
qed

text \<open>
  Claim C8. HOLD is mapped to code 0, MAIN_ENGINE to 2, RIGHT_ENGINE to 1 and LEFT_ENGINE
  to 3, and one invocation sends that single code in every frame it runs: the scripted
  process, which records the codes it receives, has received the mapped code once per
  frame.
\<close>

theorem action_codes:
  "action_code (PyStr ''HOLD'') = 0
   \<and> action_code (PyStr ''MAIN_ENGINE'') = 2
   \<and> action_code (PyStr ''RIGHT_ENGINE'') = 1
   \<and> action_code (PyStr ''LEFT_ENGINE'') = 3
   \<and> env (fst (execute_maneuver (scripted s) l a d))
       = env l @ replicate (steps (fst (execute_maneuver (scripted s) l a d)) - steps l) (action_code a)"
proof -
  obtain l' acc' fo where run: "frame_loop (scripted s) (action_code a) (nat d) l 0 = (l', acc', fo)"
    by (cases "frame_loop (scripted s) (action_code a) (nat d) l 0") auto
  from scripted_frame_loop [OF run] run
  have "env (fst (execute_maneuver (scripted s) l a d))
       = env l @ replicate (steps (fst (execute_maneuver (scripted s) l a d)) - steps l) (action_code a)"
    by (cases fo) (simp_all add: execute_maneuver_def)
  then show ?thesis by (simp add: action_map_def)
qed

theorem action_codes_witness:
  "env (fst (execute_maneuver (scripted [(0, False), (0, False), (0, False), (0, False)])
       (new_lander [] 0) (PyStr ''LEFT_ENGINE'') 3)) = [3, 3, 3]"
  using action_codes [of "[(0, False), (0, False), (0, False), (0, False)]"
      "new_lander [] 0" "PyStr ''LEFT_ENGINE''" 3]
  by (simp add: execute_maneuver_def scripted_def new_lander_def after_step_def action_map_def
      eval_nat_numeral get_telemetry_def)

subsection \<open>The decision taken from a response\<close>

lemma scan_parts_first:
  "scan_parts ps =
     (case List.map_filter part_function_call ps of
        [] \<Rightarrow> None
      | fn # _ \<Rightarrow> Some (decision_of_call fn))"
  by (induction ps) (auto simp add: List.map_filter_simps split: option.splits)

lemma extract_loop_found: "extract_loop events True d = Inr d"
  by (cases events) simp_all

lemma extract_loop_none:
  "function_calls events = [] \<Longrightarrow> extract_loop events False d = Inr d"
proof (induction events)
  case Nil
  then show ?case by simp
next
  case (Cons ev events)
  then show ?case
    by (auto simp add: function_calls_def scan_parts_first split: list.splits)
qed

lemma extract_loop_first:
  "function_calls events = fn # rest \<Longrightarrow> extract_loop events False d = decision_of_call fn"
proof (induction events)
  case Nil
  then show ?case by (simp add: function_calls_def)
next
  case step: (Cons ev events)
  show ?case
  proof (cases "List.map_filter part_function_call (event_parts ev)")
    case Nil
    with step show ?thesis
      by (simp add: function_calls_def scan_parts_first)
  next
    case (Cons fn' rest')
    with step.prems have "fn' = fn"
      by (simp add: function_calls_def)
    with Cons show ?thesis
      by (cases "decision_of_call fn") (simp_all add: scan_parts_first extract_loop_found)
  qed
qed

text \<open>
  Claim C5. When the response holds one or more structured tool invocations, the decision
  is the one built from the first of them in event order; what follows it in the response
  has no influence.
\<close>

theorem first_call_wins:
  "function_calls events = fn # rest \<Longrightarrow> decide (Inr events) = decision_of_call fn"
  by (simp add: decide_def commander_events_def extract_loop_first)

theorem first_call_wins_witness:
  "decide (Inr [text_event ''thinking'',
        call_event [''action'' \<mapsto> PyStr ''MAIN_ENGINE'', ''duration'' \<mapsto> PyInt 5, ''reasoning'' \<mapsto> PyStr ''brake''],
        call_event [''action'' \<mapsto> PyStr ''HOLD'', ''duration'' \<mapsto> PyInt 2, ''reasoning'' \<mapsto> PyStr ''wait'']])
   = Inr \<lparr>action = PyStr ''MAIN_ENGINE'', duration = 5, reasoning = PyStr ''brake''\<rparr>"
proof -
  let ?a1 = "[''action'' \<mapsto> PyStr ''MAIN_ENGINE'', ''duration'' \<mapsto> PyInt 5, ''reasoning'' \<mapsto> PyStr ''brake'']"
  let ?a2 = "[''action'' \<mapsto> PyStr ''HOLD'', ''duration'' \<mapsto> PyInt 2, ''reasoning'' \<mapsto> PyStr ''wait'']"
  have "function_calls [text_event ''thinking'', call_event ?a1, call_event ?a2]
      = \<lparr>fc_name = ''execute_maneuver'', fc_args = Some ?a1\<rparr>
        # [\<lparr>fc_name = ''execute_maneuver'', fc_args = Some ?a2\<rparr>]"
    by (simp add: function_calls_def call_event_def text_event_def event_parts_def
        List.map_filter_simps)
  from first_call_wins [OF this] show ?thesis
    by (simp add: decision_of_call_def dict_get_def)
qed

text \<open>
  Claim C2, as the code has it. A timed-out call and a response without a structured tool
  invocation (no events, or text only) both give the default decision HOLD for 1 frame,
  whose reasoning is the string \<open>Fallback\<close> with a capital letter. A response with
  several invocations does not give the default: it gives the decision of the first. In
  every case one value is returned for the turn.
\<close>

theorem decide_fallback:
  "decide (Inl TimeoutError)
     = Inr \<lparr>action = PyStr ''HOLD'', duration = 1, reasoning = PyStr ''Fallback''\<rparr>
   \<and> (function_calls events = [] \<longrightarrow>
        decide (Inr events)
          = Inr \<lparr>action = PyStr ''HOLD'', duration = 1, reasoning = PyStr ''Fallback''\<rparr>)
   \<and> (\<forall>fn rest. function_calls events = fn # rest \<longrightarrow>
        decide (Inr events) = decision_of_call fn)"
  by (simp add: decide_def commander_events_def extract_loop_first extract_loop_none
      default_decision_def)

theorem decide_fallback_witness:
  "decide (Inr [text_event ''I would fire the main engine'']) 
     = Inr \<lparr>action = PyStr ''HOLD'', duration = 1, reasoning = PyStr ''Fallback''\<rparr>
   \<and> decide (Inr []) = Inr \<lparr>action = PyStr ''HOLD'', duration = 1, reasoning = PyStr ''Fallback''\<rparr>"
  using decide_fallback [of "[text_event ''I would fire the main engine'']"]
    decide_fallback [of "[]"]
  by (simp add: function_calls_def text_event_def event_parts_def List.map_filter_simps)

text \<open>
  Claim C2 as stated fails twice: the reasoning of the default is not the string
  \<open>fallback\<close>, and a response with two invocations yields the first one's decision
  instead of the default.
\<close>

theorem decide_fallback_counterexample:
  "decide (Inl TimeoutError)
     \<noteq> Inr \<lparr>action = PyStr ''HOLD'', duration = 1, reasoning = PyStr ''fallback''\<rparr>
   \<and> decide (Inr [call_event [''action'' \<mapsto> PyStr ''MAIN_ENGINE'', ''duration'' \<mapsto> PyInt 5, ''reasoning'' \<mapsto> PyStr ''brake''],
        call_event [''action'' \<mapsto> PyStr ''HOLD'', ''duration'' \<mapsto> PyInt 2, ''reasoning'' \<mapsto> PyStr ''wait'']])
     = Inr \<lparr>action = PyStr ''MAIN_ENGINE'', duration = 5, reasoning = PyStr ''brake''\<rparr>"
  by (simp add: decide_def commander_events_def default_decision_def call_event_def
      event_parts_def decision_of_call_def dict_get_def)

subsection \<open>The turn and the mission loop\<close>

text \<open>The definitions a concrete run unfolds.\<close>

lemmas run_simps = turn_def decide_def commander_events_def default_decision_def call_event_def
  text_event_def event_parts_def decision_of_call_def dict_get_def execute_maneuver_def
  scripted_def new_lander_def new_mission_def after_step_def action_map_def get_telemetry_def
  get_telemetry_description_def eval_nat_numeral

lemmas loop_simps = main_def run_episode_def mission_loop.simps mission_end_def result_status_def

lemma execute_total_reward:
  assumes "execute_maneuver P l a d = (l', Inr res)"
  shows "total_reward l' = total_reward l + reward_accumulated res"
proof -
  obtain l1 acc fo where run: "frame_loop P (action_code a) (nat d) l 0 = (l1, acc, fo)"
    by (cases "frame_loop P (action_code a) (nat d) l 0") auto
  from frame_loop_spec [OF run]
  have "\<exists>outs. answers P (action_code a) (env l) (length outs) = Some outs
      \<and> acc = 0 + sum_list (map reward outs)
      \<and> total_reward l1 = total_reward l + sum_list (map reward outs)"
    by blast
  with assms run show ?thesis
    by (cases fo) (auto simp add: execute_maneuver_def)
qed



lemma turn_cases:
  assumes "turn P io st = (st', f)"
  shows "step_count st' = Suc (step_count st)
    \<and> ((mission_log st' = mission_log st \<and> episode_reward st' = episode_reward st \<and> f \<noteq> None)
       \<or> (\<exists>r. mission_log st' = mission_log st @ [r]
            \<and> tr_step r = Suc (step_count st)
            \<and> episode_reward st' = episode_reward st + reward_accumulated (execution_result r)
            \<and> total_reward (m_lander st')
                = total_reward (m_lander st) + reward_accumulated (execution_result r)
            \<and> f = sleep_interrupt io))"
proof (cases "navigator_reply io")
  case (Inl e)
  with assms show ?thesis by (auto simp add: turn_def)
next
  case nav: (Inr nav_events)
  show ?thesis
  proof (cases "decide (commander_reply io)")
    case (Inl e)
    with nav assms show ?thesis by (auto simp add: turn_def)
  next
    case dec: (Inr d)
    obtain l' x where ex: "execute_maneuver P (m_lander st) (action d) (duration d) = (l', x)"
      by (cases "execute_maneuver P (m_lander st) (action d) (duration d)") auto
    show ?thesis
    proof (cases x)
      case (Inl e)
      with nav dec ex assms show ?thesis by (auto simp add: turn_def)
    next
      case (Inr res)
      with ex have "total_reward l' = total_reward (m_lander st) + reward_accumulated res"
        by (simp add: execute_total_reward)
      with Inr nav dec ex assms show ?thesis by (auto simp add: turn_def Let_def)
    qed
  qed
qed


lemma mission_loop_log:
  "mission_loop P mx io st = (st', f) \<Longrightarrow>
   map tr_step (mission_log st) = [1..<Suc (step_count st)] \<Longrightarrow>
   \<exists>n. map tr_step (mission_log st') = [1..<Suc n]
     \<and> (n = step_count st' \<or> (f \<noteq> None \<and> Suc n = step_count st'))"
proof (induction P mx io st rule: mission_loop.induct)
  case (1 P mx io st)
  show ?case
  proof (cases "\<not> lander_done (m_lander st) \<and> step_count st < mx")
    case False
    with "1.prems" show ?thesis
      by (auto simp add: mission_loop.simps [of P mx io st])
  next
    case True
    obtain st1 f1 where t: "turn P (io (step_count st + 1)) st = (st1, f1)"
      by (cases "turn P (io (step_count st + 1)) st") auto
    from turn_cases [OF t] have sc: "step_count st1 = Suc (step_count st)"
      and alt: "(mission_log st1 = mission_log st \<and> f1 \<noteq> None)
        \<or> (\<exists>r. mission_log st1 = mission_log st @ [r] \<and> tr_step r = Suc (step_count st))"
      by auto
    show ?thesis
    proof (cases f1)
      case (Some e)
      with True t "1.prems"(1) have same: "st' = st1" "f = Some e"
        by (simp_all add: mission_loop.simps [of P mx io st])
      from alt show ?thesis
      proof
        assume "mission_log st1 = mission_log st \<and> f1 \<noteq> None"
        with same sc "1.prems"(2) show ?thesis
          by (intro exI [of _ "step_count st"]) simp
      next
        assume "\<exists>r. mission_log st1 = mission_log st @ [r] \<and> tr_step r = Suc (step_count st)"
        with same sc "1.prems"(2) show ?thesis
          by (intro exI [of _ "Suc (step_count st)"]) auto
      qed
    next
      case None
      with alt sc "1.prems"(2) have inv: "map tr_step (mission_log st1) = [1..<Suc (step_count st1)]"
        by auto
      from None True t "1.prems"(1) have "mission_loop P mx io st1 = (st', f)"
        by (simp add: mission_loop.simps [of P mx io st])
      from "1.IH" [OF True t [symmetric] None this inv] show ?thesis .
    qed
  qed
qed


lemma new_mission_inv:
  "episode_reward (new_mission e0 o0) = total_reward (m_lander (new_mission e0 o0))"
  "map tr_step (mission_log (new_mission e0 o0)) = [1..<Suc (step_count (new_mission e0 o0))]"
  by (simp_all add: new_mission_def new_lander_def)







text \<open>
  Claim C7, as the code has it. With a credential, every way out of the turn loop of
  \<^verbatim>\<open>main\<close> runs the cleanup: the log file receives the mission log, which holds
  the records of the turns 1 to \<open>n\<close> with \<open>n\<close> the number of turns counted, or one
  less when a fault ended the last one; and the process is closed. A loop that ends
  without a fault returns the mission-end dictionary, a \<^verbatim>\<open>KeyboardInterrupt\<close>
  returns the ABORTED dictionary, and every other fault leaves \<^verbatim>\<open>main\<close> as that
  fault. An evaluation episode closes the process on every way out; a loop that ends
  without a fault or with a fault that is an Exception returns the episode result with
  the log so far, and any other fault leaves \<^verbatim>\<open>run_episode\<close> as that fault.
\<close>

theorem cleanup_on_every_exit:
  assumes key: "api_key = Some k" "k \<noteq> []"
    and run: "mission_loop P 100 io (new_mission e0 o0) = (st, f)"
    and run': "mission_loop P 80 io (new_mission e0 o0) = (st', f')"
  shows "env_closed (main P io api_key e0 o0)
     \<and> log_file (main P io api_key e0 o0) = Some (mission_log st)
     \<and> (\<exists>n. map tr_step (mission_log st) = [1..<Suc n]
           \<and> (n = step_count st \<or> (f \<noteq> None \<and> Suc n = step_count st)))
     \<and> (f = None \<longrightarrow> returned (main P io api_key e0 o0) = Inr (mission_end st))
     \<and> (f = Some KeyboardInterrupt \<longrightarrow>
          returned (main P io api_key e0 o0)
            = Inr (AbortedByUser (episode_reward st) (step_count st)))
     \<and> (\<forall>e. f = Some e \<and> e \<noteq> KeyboardInterrupt \<longrightarrow>
          returned (main P io api_key e0 o0) = Inl e)
     \<and> ep_env_closed (run_episode P io i e0 o0)
     \<and> (f' = None \<or> (\<exists>e. f' = Some e \<and> is_Exception e) \<longrightarrow>
          ep_returned (run_episode P io i e0 o0)
            = Inr \<lparr>episode_id = i, ep_total_reward = episode_reward st',
                   ep_steps = step_count st', success = (episode_reward st' \<ge> 200),
                   ep_log = mission_log st'\<rparr>)
     \<and> (\<forall>e. f' = Some e \<and> \<not> is_Exception e \<longrightarrow>
          ep_returned (run_episode P io i e0 o0) = Inl e)"
proof -
  have log: "\<exists>n. map tr_step (mission_log st) = [1..<Suc n]
           \<and> (n = step_count st \<or> (f \<noteq> None \<and> Suc n = step_count st))"
    using run new_mission_inv(2) by (rule mission_loop_log)
  have m: "main P io api_key e0 o0 =
      \<lparr>returned =
         (case f of
            None \<Rightarrow> Inr (mission_end st)
          | Some e \<Rightarrow>
              (if e = KeyboardInterrupt
               then Inr (AbortedByUser (episode_reward st) (step_count st))
               else Inl e)),
       log_file = Some (mission_log st),
       replay = (if frames (m_lander st) = [] then None else Some (frames (m_lander st))),
       env_closed = True\<rparr>"
    using key run by (simp add: main_def)
  have e: "run_episode P io i e0 o0 =
      \<lparr>ep_returned =
         (if (case f' of None \<Rightarrow> True | Some e \<Rightarrow> is_Exception e)
          then Inr \<lparr>episode_id = i, ep_total_reward = episode_reward st',
                    ep_steps = step_count st', success = (episode_reward st' \<ge> 200),
                    ep_log = mission_log st'\<rparr>
          else Inl (the f')),
       ep_env_closed = True\<rparr>"
    using run' by (simp add: run_episode_def)
  show ?thesis
    unfolding m e using log by auto
qed

theorem cleanup_on_every_exit_witness:
  "log_file (main (scripted [(1, False)])
      (\<lambda>n. \<lparr>navigator_reply = Inr [text_event ''hold''], commander_reply = Inr [],
             sleep_interrupt = None\<rparr>) (Some ''key'') [] 0)
     = Some [\<lparr>tr_step = 1, tr_telemetry = [], navigator_advice = Some ''hold'',
           commander_decision = \<lparr>action = PyStr ''HOLD'', duration = 1, reasoning = PyStr ''Fallback''\<rparr>,
           execution_result = \<lparr>final_telemetry = \<lparr>tel_state = 1, steps_taken = 1\<rparr>,
             reward_accumulated = 1, res_done = False, action_executed = PyStr ''HOLD'',
             res_duration = 1\<rparr>\<rparr>]
   \<and> env_closed (main (scripted [(1, False)])
      (\<lambda>n. \<lparr>navigator_reply = Inr [text_event ''hold''], commander_reply = Inr [],
             sleep_interrupt = None\<rparr>) (Some ''key'') [] 0)"
proof -
  let ?P = "scripted [(1, False)]"
  let ?io = "\<lambda>n::nat. \<lparr>navigator_reply = Inr [text_event ''hold''], commander_reply = Inr [],
             sleep_interrupt = None\<rparr>"
  obtain st f where run: "mission_loop ?P 100 ?io (new_mission [] 0) = (st, f)"
    by (cases "mission_loop ?P 100 ?io (new_mission [] 0)") auto
  obtain st' f' where run': "mission_loop ?P 80 ?io (new_mission [] 0) = (st', f')"
    by (cases "mission_loop ?P 80 ?io (new_mission [] 0)") auto
  have k: "Some ''key'' = Some ''key''" "''key'' \<noteq> []" by simp_all
  from cleanup_on_every_exit [OF k run run'] have
    "log_file (main ?P ?io (Some ''key'') [] 0) = Some (mission_log st)"
    "env_closed (main ?P ?io (Some ''key'') [] 0)"
    by simp_all
  moreover from run have "mission_log st
     = [\<lparr>tr_step = 1, tr_telemetry = [], navigator_advice = Some ''hold'',
           commander_decision = \<lparr>action = PyStr ''HOLD'', duration = 1, reasoning = PyStr ''Fallback''\<rparr>,
           execution_result = \<lparr>final_telemetry = \<lparr>tel_state = 1, steps_taken = 1\<rparr>,
             reward_accumulated = 1, res_done = False, action_executed = PyStr ''HOLD'',
             res_duration = 1\<rparr>\<rparr>]"
    by (auto simp add: loop_simps run_simps)
  ultimately show ?thesis by simp
qed

text \<open>
  Claim C7 as stated fails: when the process raises in the second turn, \<^verbatim>\<open>main\<close>
  does not end in the ABORTED status, it lets the fault through; and the evaluation
  episode returns its ordinary result, with no ABORTED classification.
\<close>

theorem cleanup_on_every_exit_counterexample:
  "returned (main (scripted [(1, False)])
      (\<lambda>n. \<lparr>navigator_reply = Inr [text_event ''hold''], commander_reply = Inr [],
             sleep_interrupt = None\<rparr>) (Some ''key'') [] 0)
     = Inl (OtherException ''script exhausted'')
   \<and> ep_returned (run_episode (scripted [(1, False)])
      (\<lambda>n. \<lparr>navigator_reply = Inr [text_event ''hold''], commander_reply = Inr [],
             sleep_interrupt = None\<rparr>) 7 [] 0)
     = Inr \<lparr>episode_id = 7, ep_total_reward = 1, ep_steps = 2, success = False,
         ep_log = [\<lparr>tr_step = 1, tr_telemetry = [], navigator_advice = Some ''hold'',
           commander_decision = \<lparr>action = PyStr ''HOLD'', duration = 1, reasoning = PyStr ''Fallback''\<rparr>,
           execution_result = \<lparr>final_telemetry = \<lparr>tel_state = 1, steps_taken = 1\<rparr>,
             reward_accumulated = 1, res_done = False, action_executed = PyStr ''HOLD'',
             res_duration = 1\<rparr>\<rparr>]\<rparr>"
  by (simp add: loop_simps run_simps)

subsection \<open>Compaction\<close>




end
